theory Spec2Isabelle
  imports Main "HOL-Library.Sublist"
begin

section \<open>JavaScript strings and arrays\<close>

text \<open>
  A JavaScript string is a sequence of code units. It is modelled as a \<open>string\<close>, one
  \<open>char\<close> for each code unit, which covers the code units \<open>0x00\<close> to \<open>0xFF\<close>. The
  program never counts or converts code units: it compares them with the comma, the
  newline, the double quote and the backquote, and asks whether they are white space.
  \<open>String.prototype.trim\<close> and the regular expression class \<open>\s\<close> use the same set of
  white space and line terminator code units; \<open>isWhiteSpace\<close> lists the members of that set
  in the modelled range: TAB, LF, VT, FF, CR, SPACE and NO-BREAK SPACE. Its other members
  (\<open>U+1680\<close>, \<open>U+2000\<close> to \<open>U+200A\<close>, \<open>U+2028\<close>, \<open>U+2029\<close>, \<open>U+202F\<close>, \<open>U+205F\<close>,
  \<open>U+3000\<close>, \<open>U+FEFF\<close>) lie above the modelled range.
\<close>

definition isWhiteSpace :: "char \<Rightarrow> bool" where
  "isWhiteSpace c \<longleftrightarrow>
     c = CHR 0x09 \<or> c = CHR 0x0A \<or> c = CHR 0x0B \<or> c = CHR 0x0C \<or> c = CHR 0x0D \<or>
     c = CHR 0x20 \<or> c = CHR 0xA0"

text \<open>\<open>s.trim()\<close>: the string without its leading and trailing white space.\<close>

definition trimEnd :: "string \<Rightarrow> string" where
  "trimEnd s = rev (dropWhile isWhiteSpace (rev s))"

definition trim :: "string \<Rightarrow> string" where
  "trim s = trimEnd (dropWhile isWhiteSpace s)"

text \<open>
  \<open>s.split(sep)\<close> for a separator of one code unit: the pieces between the occurrences of
  the separator, of which there is always at least one (\<open>''.split(',')\<close> is \<open>['']\<close>). The
  first case of the \<open>case\<close> below is never taken (lemma \<open>js_split_not_Nil\<close>).
\<close>

fun js_split :: "char \<Rightarrow> string \<Rightarrow> string list" where
  "js_split sep [] = [[]]"
| "js_split sep (c # cs) =
     (if c = sep then [] # js_split sep cs
      else (case js_split sep cs of [] \<Rightarrow> [[c]] | w # ws \<Rightarrow> (c # w) # ws))"

text \<open>\<open>xs.join(sep)\<close>; the empty array joins to the empty string.\<close>

fun join :: "string \<Rightarrow> string list \<Rightarrow> string" where
  "join sep [] = []"
| "join sep [x] = x"
| "join sep (x # y # ys) = x @ sep @ join sep (y # ys)"

text \<open>
  \<open>xs[i]\<close>: reading an array beyond its end gives \<open>undefined\<close> (here \<open>None\<close>), it does not
  throw.
\<close>

definition js_index :: "'a list \<Rightarrow> nat \<Rightarrow> 'a option" where
  "js_index xs i = (if i < length xs then Some (xs ! i) else None)"

section \<open>The CSV normalizer (\<open>processCSV\<close> in \<open>src/App.tsx\<close>)\<close>

text \<open>
  \<open>cell.replace(/^"|"$/g, '')\<close>. The expression has no \<open>m\<close> flag, so \<open>^\<close> matches at
  position 0 only and \<open>$\<close> at the end of the string only. The replacement scans from the
  left: at position 0 a double quote is matched by the first alternative; at every later
  position only the second alternative can match, and it does at a double quote that is
  the last code unit.
\<close>

definition dquote :: char where
  "dquote = CHR 0x22"

fun dropFinalQuote :: "string \<Rightarrow> string" where
  "dropFinalQuote [] = []"
| "dropFinalQuote [c] = (if c = dquote then [] else [c])"
| "dropFinalQuote (c # d # cs) = c # dropFinalQuote (d # cs)"

definition stripQuotes :: "string \<Rightarrow> string" where
  "stripQuotes s =
     (case s of
        [] \<Rightarrow> []
      | c # cs \<Rightarrow> if c = dquote then dropFinalQuote cs else c # dropFinalQuote cs)"

text \<open>\<open>cell => cell.trim().replace(/^"|"$/g, '')\<close>\<close>

definition cleanCell :: "string \<Rightarrow> string" where
  "cleanCell cell = stripQuotes (trim cell)"

text \<open>
  \<open>csvText.split('\n').map(line => line.split(',').map(cell => ...))\<close>
\<close>

definition parseLines :: "string \<Rightarrow> string list list" where
  "parseLines csvText =
     map (\<lambda>line. map cleanCell (js_split CHR '','' line)) (js_split CHR 0x0A csvText)"

text \<open>
  The loop of \<open>removeLeadingBlankColumns\<close>, started at the current value of the variable
  \<open>firstNonBlankColIndex\<close> and returning its value at the end of the loop:
  \<^verbatim>\<open>while (firstNonBlankColIndex < data[0].length) {
    if (data.some(row => row[firstNonBlankColIndex] !== '')) break;
    firstNonBlankColIndex++;
  }\<close>
  A row that is shorter than the index reads as \<open>undefined\<close>, which is \<open>!== ''\<close>. The loop
  is only reached with \<open>data\<close> not empty, so \<open>data[0]\<close> is \<open>hd data\<close>.
\<close>

function firstNonBlankColIndex :: "string list list \<Rightarrow> nat \<Rightarrow> nat" where
  "firstNonBlankColIndex data i =
     (if i < length (hd data)
      then (if list_ex (\<lambda>row. js_index row i \<noteq> Some []) data then i
            else firstNonBlankColIndex data (Suc i))
      else i)"
  by pat_completeness auto
termination
  by (relation "measure (\<lambda>(data, i). length (hd data) - i)") auto

declare firstNonBlankColIndex.simps [simp del]

definition removeLeadingBlankColumns :: "string list list \<Rightarrow> string list list" where
  "removeLeadingBlankColumns data =
     (if length data = 0 then data
      else map (\<lambda>row. drop (firstNonBlankColIndex data 0) row) data)"

text \<open>\<open>line => line.some(cell => cell)\<close>: a string is truthy when it is not empty.\<close>

definition someCell :: "string list \<Rightarrow> bool" where
  "someCell line = list_ex (\<lambda>cell. cell \<noteq> []) line"

text \<open>
  \<open>lines[0]\<close> is \<open>hd lines\<close>, since \<open>lines\<close> is never empty (lemma \<open>parseLines_not_Nil\<close>),
  and so is \<open>cleanedData[0]\<close>; \<open>xs.slice(1)\<close> is \<open>tl xs\<close>.
\<close>

definition processCSV :: "string \<Rightarrow> string list \<times> string list list" where
  "processCSV csvText =
     (let lines = parseLines csvText;
          headers = hd lines;
          data = filter someCell (tl lines);
          cleanedData = removeLeadingBlankColumns (headers # data);
          cleanedHeaders = hd cleanedData;
          cleanedRows = tl cleanedData
      in (cleanedHeaders, cleanedRows))"

section \<open>The CSV normalizer of the single-provider variant (\<open>src/unnamed/part_000\<close>)\<close>

function firstNonBlankColIndex_part000 :: "string list list \<Rightarrow> nat \<Rightarrow> nat" where
  "firstNonBlankColIndex_part000 data i =
     (if i < length (hd data)
      then (if list_ex (\<lambda>row. js_index row i \<noteq> Some []) data then i
            else firstNonBlankColIndex_part000 data (Suc i))
      else i)"
  by pat_completeness auto
termination
  by (relation "measure (\<lambda>(data, i). length (hd data) - i)") auto

declare firstNonBlankColIndex_part000.simps [simp del]

definition removeLeadingBlankColumns_part000 :: "string list list \<Rightarrow> string list list" where
  "removeLeadingBlankColumns_part000 data =
     (if length data = 0 then data
      else map (\<lambda>row. drop (firstNonBlankColIndex_part000 data 0) row) data)"

definition processCSV_part000 :: "string \<Rightarrow> string list \<times> string list list" where
  "processCSV_part000 csvText =
     (let lines = map (\<lambda>line. map (\<lambda>cell. stripQuotes (trim cell)) (js_split CHR '','' line))
                    (js_split CHR 0x0A csvText);
          headers = hd lines;
          data = filter (\<lambda>line. list_ex (\<lambda>cell. cell \<noteq> []) line) (tl lines);
          cleanedData = removeLeadingBlankColumns_part000 (headers # data);
          cleanedHeaders = hd cleanedData;
          cleanedRows = tl cleanedData
      in (cleanedHeaders, cleanedRows))"

section \<open>The response normalizer\<close>

text \<open>
  \<open>result.replace(/^```csv\s*|\s*```$/g, '')\<close>, the same line in both files. Every match
  is replaced by the empty string, scanning from the left. At position 0 the first
  alternative matches the six code units of the tagged fence and all the white space that
  follows. At any position the second alternative matches when the rest of the string is
  white space followed by three backquotes and nothing else (\<open>closingFence\<close>); after
  such a match the string is exhausted.
\<close>

definition closingFence :: "string \<Rightarrow> bool" where
  "closingFence s \<longleftrightarrow> dropWhile isWhiteSpace s = ''```''"

fun scanClosingFence :: "string \<Rightarrow> string" where
  "scanClosingFence [] = []"
| "scanClosingFence (c # cs) =
     (if closingFence (c # cs) then [] else c # scanClosingFence cs)"

definition stripFence :: "string \<Rightarrow> string" where
  "stripFence text =
     (if prefix ''```csv'' text
      then scanClosingFence (dropWhile isWhiteSpace (drop 6 text))
      else scanClosingFence text)"

section \<open>The prompt builder (\<open>getPrompt\<close> in \<open>src/App.tsx\<close>)\<close>

text \<open>
  \<open>[headers.join(', '), ...data.map(row => row.join(', '))].join('\n')\<close>
\<close>

definition formatData :: "string list \<Rightarrow> string list list \<Rightarrow> string" where
  "formatData headers data =
     join ''\<newline>'' (join '', '' headers # map (\<lambda>row. join '', '' row) data)"

text \<open>
  The template literal of \<open>getPrompt\<close>, in its two fixed pieces: the text in front of
  \<open>${csv1}\<close> and the text between \<open>${csv1}\<close> and \<open>${csv2}\<close>; nothing follows \<open>${csv2}\<close>.
  Three of its lines end in a space.
\<close>

definition promptIntro :: string where
  "promptIntro =
     ''I want to compare these two spreadsheets side-by-side. \<newline>'' @
     ''  First collapse each spreadsheet into one column.\<newline>'' @
     ''  Make an index from the row and cell data from First spreadsheet.\<newline>'' @
     ''  Use the index to match rows and cells in Second spreadsheet.\<newline>'' @
     ''  If there is no matching pair, use an empty cell.\<newline>'' @
     ''  Double-check each row carefully. \<newline>'' @
     ''  Show the result as a **well-formed CSV** with exactly two columns. \<newline>'' @
     ''  Do not provide any commentary.\<newline>'' @
     ''\<newline>'' @
     ''  First spreadsheet:\<newline>'' @
     ''  ''"

definition promptBetween :: string where
  "promptBetween =
     ''\<newline>'' @
     ''\<newline>'' @
     ''  Second spreadsheet:\<newline>'' @
     ''  ''"

definition getPrompt ::
  "string list \<Rightarrow> string list list \<Rightarrow> string list \<Rightarrow> string list list \<Rightarrow> string" where
  "getPrompt headers1 data1 headers2 data2 =
     (let csv1 = formatData headers1 data1;
          csv2 = formatData headers2 data2
      in promptIntro @ csv1 @ promptBetween @ csv2)"

section \<open>The application state and the process action\<close>

text \<open>
  The \<open>useState\<close> cells that both files declare, and the two more of \<open>src/App.tsx\<close>. A
  state setter replaces the value of its cell; the state after an action is the state
  after its setters in the order of their calls.
\<close>

datatype Provider = Openai | Deepseek | Gemini | Claude

record CoreState =
  file1Data :: "string list list"
  file2Data :: "string list list"
  headers1 :: "string list"
  headers2 :: "string list"
  processedHeaders :: "string list"
  processedData :: "string list list"
  isProcessing :: bool
  apiKey :: string
  error :: string
  processedResult :: "string option"

record AppState = CoreState +
  selectedProvider :: Provider
  selectedModel :: string

text \<open>
  The provider libraries and the network are outside the program, and are parameters of
  the process action. A branch of the \<open>switch\<close> first builds the client of its provider
  (\<open>new OpenAI({...})\<close>, \<open>new GoogleGenerativeAI(apiKey)\<close>, \<open>new Anthropic({ apiKey })\<close>;
  the DeepSeek branch calls \<open>fetch\<close> and builds none), and the constructor may throw
  before anything is sent: \<open>ClientOptions\<close> is what the branch hands to the constructor,
  with \<open>dangerouslyAllowBrowser\<close> true only where the source passes it, and a
  \<open>ClientBuilder\<close> says what the constructor throws, if anything. Then the branch sends
  a request: the provider whose client is used, the model, the credential and the prompt
  (the \<open>content\<close> of the single user message). The service either throws (an \<open>Error\<close>
  with its message, or some other value) or returns the text of the reply; a reply without
  text (\<open>null\<close>, \<open>undefined\<close> or \<open>''\<close>, all of them falsy in \<open>if (result)\<close>) is the
  empty string. The process action returns the new state and the requests it has sent.
\<close>

datatype Thrown = Error string | NonError

record ClientOptions =
  sdk :: Provider
  sdkKey :: string
  dangerouslyAllowBrowser :: bool

type_synonym ClientBuilder = "ClientOptions \<Rightarrow> Thrown option"

record Request =
  provider :: Provider
  model :: string
  key :: string
  content :: string

type_synonym Completion = "Request \<Rightarrow> Thrown + string"

text \<open>
  The client that each branch of the \<open>switch\<close> of \<open>processWithAI\<close> builds: the OpenAI
  branch passes \<open>dangerouslyAllowBrowser: true\<close>, the Gemini branch (which also takes the
  model object from its client before it sends) and the Claude branch pass the key alone,
  the DeepSeek branch builds no client.
\<close>

fun clientOptions :: "Provider \<Rightarrow> string \<Rightarrow> ClientOptions option" where
  "clientOptions Openai k = Some \<lparr>sdk = Openai, sdkKey = k, dangerouslyAllowBrowser = True\<rparr>"
| "clientOptions Deepseek k = None"
| "clientOptions Gemini k = Some \<lparr>sdk = Gemini, sdkKey = k, dangerouslyAllowBrowser = False\<rparr>"
| "clientOptions Claude k = Some \<lparr>sdk = Claude, sdkKey = k, dangerouslyAllowBrowser = False\<rparr>"

text \<open>What building the client throws: nothing where no client is built.\<close>

definition buildClient :: "ClientBuilder \<Rightarrow> ClientOptions option \<Rightarrow> Thrown option" where
  "buildClient newClient options =
     (case options of None \<Rightarrow> None | Some opts \<Rightarrow> newClient opts)"

text \<open>\<open>selectedProvider.toUpperCase()\<close>, on the four values of the type.\<close>

fun toUpperCase :: "Provider \<Rightarrow> string" where
  "toUpperCase Openai = ''OPENAI''"
| "toUpperCase Deepseek = ''DEEPSEEK''"
| "toUpperCase Gemini = ''GEMINI''"
| "toUpperCase Claude = ''CLAUDE''"

text \<open>\<open>err instanceof Error ? err.message : 'An error occurred while processing the files'\<close>\<close>

fun errorMessage :: "Thrown \<Rightarrow> string" where
  "errorMessage (Error message) = message"
| "errorMessage NonError = ''An error occurred while processing the files''"

text \<open>
  \<open>processWithAI\<close> of \<open>src/App.tsx\<close>. The branch of the \<open>switch\<close> for the selected
  provider builds its client and sends the prompt, leaving the reply in \<open>result\<close>; an
  exception of the constructor or of the call goes to the \<open>catch\<close> block, the first with
  nothing sent. The \<open>finally\<close> block resets the processing flag on every way out of
  the \<open>try\<close>.
\<close>

definition processWithAI ::
  "ClientBuilder \<Rightarrow> Completion \<Rightarrow> AppState \<Rightarrow> AppState \<times> Request list" where
  "processWithAI newClient complete s =
     (if apiKey s = [] then
        (s\<lparr>error := ''Please enter your '' @ toUpperCase (selectedProvider s) @
                     '' API key first''\<rparr>, [])
      else if length (file1Data s) = 0 \<or> length (file2Data s) = 0 then
        (s\<lparr>error := ''Please upload both CSV files first''\<rparr>, [])
      else
        (let s1 = s\<lparr>isProcessing := True, error := [], processedResult := None\<rparr>;
             prompt = getPrompt (headers1 s) (file1Data s) (headers2 s) (file2Data s);
             request = \<lparr>provider = selectedProvider s, model = selectedModel s,
                        key = apiKey s, content = prompt\<rparr>;
             (outcome, sent) =
               (case buildClient newClient (clientOptions (selectedProvider s) (apiKey s)) of
                  Some err \<Rightarrow> (Inl err, [])
                | None \<Rightarrow> (complete request, [request]));
             s2 = (case outcome of
                     Inl err \<Rightarrow> s1\<lparr>error := errorMessage err\<rparr>
                   | Inr result \<Rightarrow>
                       if result \<noteq> [] then
                         (let result' = stripFence result;
                              (newHeaders, newData) = processCSV result'
                          in s1\<lparr>processedResult := Some result',
                                processedHeaders := newHeaders,
                                processedData := newData\<rparr>)
                       else s1)
         in (s2\<lparr>isProcessing := False\<rparr>, sent)))"

text \<open>
  \<open>processWithOpenAI\<close> of \<open>src/unnamed/part_000\<close>: one provider, whose client is built
  with \<open>dangerouslyAllowBrowser: true\<close>, the model \<open>o3-mini\<close>, and a prompt built in
  place, with the cells joined by a comma alone and a template of its own.
\<close>

definition promptIntro_part000 :: string where
  "promptIntro_part000 =
     ''I want to compare these two spreadsheets side-by-side. \<newline>'' @
     ''First collapse each spreadsheet into one column.\<newline>'' @
     ''Double-check that each spreadsheet is one column only.\<newline>'' @
     ''Now start matching rows.\<newline>'' @
     ''If a row exists in one spreadsheet but not the other, use an empty cell to keep alignment. \<newline>'' @
     ''Double-check each row carefully. \<newline>'' @
     ''Show the result as a CSV. \<newline>'' @
     ''Do not provide any commentary.\<newline>'' @
     ''\<newline>'' @
     ''First spreadsheet:\<newline>''"

definition promptBetween_part000 :: string where
  "promptBetween_part000 =
     ''\<newline>'' @
     ''\<newline>'' @
     ''Second spreadsheet:\<newline>''"

definition processWithOpenAI ::
  "ClientBuilder \<Rightarrow> Completion \<Rightarrow> CoreState \<Rightarrow> CoreState \<times> Request list" where
  "processWithOpenAI newClient complete s =
     (if apiKey s = [] then
        (s\<lparr>error := ''Please enter your OpenAI API key first''\<rparr>, [])
      else if length (file1Data s) = 0 \<or> length (file2Data s) = 0 then
        (s\<lparr>error := ''Please upload both CSV files first''\<rparr>, [])
      else
        (let s1 = s\<lparr>isProcessing := True, error := [], processedResult := None\<rparr>;
             csv1 = join ''\<newline>'' (map (\<lambda>row. join '','' row) (headers1 s # file1Data s));
             csv2 = join ''\<newline>'' (map (\<lambda>row. join '','' row) (headers2 s # file2Data s));
             request = \<lparr>provider = Openai, model = ''o3-mini'', key = apiKey s,
                        content = promptIntro_part000 @ csv1 @ promptBetween_part000 @ csv2\<rparr>;
             (outcome, sent) =
               (case newClient \<lparr>sdk = Openai, sdkKey = apiKey s,
                                dangerouslyAllowBrowser = True\<rparr> of
                  Some err \<Rightarrow> (Inl err, [])
                | None \<Rightarrow> (complete request, [request]));
             s2 = (case outcome of
                     Inl err \<Rightarrow> s1\<lparr>error := errorMessage err\<rparr>
                   | Inr result \<Rightarrow>
                       if result \<noteq> [] then
                         (let result' = stripFence result;
                              (newHeaders, newData) = processCSV_part000 result'
                          in s1\<lparr>processedResult := Some result',
                                processedHeaders := newHeaders,
                                processedData := newData\<rparr>)
                       else s1)
         in (s2\<lparr>isProcessing := False\<rparr>, sent)))"

section \<open>Vocabulary of the specification\<close>

text \<open>
  The array that \<open>processCSV\<close> hands to \<open>removeLeadingBlankColumns\<close>,
  \<open>[headers, ...data]\<close>: the header line and the lines that are not entirely blank. The
  value of \<open>firstNonBlankColIndex\<close> after the loop on it is the \<open>k\<close> of the specification.
\<close>

definition keptLines :: "string \<Rightarrow> string list list" where
  "keptLines csvText = hd (parseLines csvText) # filter someCell (tl (parseLines csvText))"

definition leadingBlankColumns :: "string \<Rightarrow> nat" where
  "leadingBlankColumns csvText = firstNonBlankColIndex (keptLines csvText) 0"

text \<open>Column \<open>i\<close> of a table is blank: no row has a non-empty cell at index \<open>i\<close>.\<close>

definition blankColumn :: "string list list \<Rightarrow> nat \<Rightarrow> bool" where
  "blankColumn rows i = list_all (\<lambda>row. i < length row \<longrightarrow> row ! i = []) rows"

text \<open>
  The \<open>k\<close> of the specification, in its words: the first column index at which at least
  one row, the header row included, has a non-empty cell (\<open>None\<close> when there is no such
  column).
\<close>

definition firstNonEmptyColumn_spec :: "string list list \<Rightarrow> nat option" where
  "firstNonEmptyColumn_spec rows =
     find (\<lambda>i. \<not> blankColumn rows i) [0 ..< foldr (\<lambda>row n. max (length row) n) rows 0]"

text \<open>
  A CSV text has no blank leading columns: the first column of its table is not blank.
\<close>

definition noBlankLeadingColumns :: "string \<Rightarrow> bool" where
  "noBlankLeadingColumns csvText \<longleftrightarrow> \<not> blankColumn (keptLines csvText) 0"

text \<open>
  Every cell of a table is clean: cleaning it once more (trimming it, then taking away
  one leading and one trailing double quote) does not change it.
\<close>

definition cleanCells :: "string list \<times> string list list \<Rightarrow> bool" where
  "cleanCells table \<longleftrightarrow>
     list_all (\<lambda>row. list_all (\<lambda>cell. cleanCell cell = cell) row) (fst table # snd table)"

text \<open>
  What the replacement of the response normalizer removes, in closed form: at the start of
  the text the csv-tagged fence with the white space after it, and at the end of the text
  three backquotes with the white space in front of them.
\<close>

definition dropOpeningFence :: "string \<Rightarrow> string" where
  "dropOpeningFence text =
     (if prefix ''```csv'' text then dropWhile isWhiteSpace (drop 6 text) else text)"

definition dropClosingFence :: "string \<Rightarrow> string" where
  "dropClosingFence text =
     (if suffix ''```'' text then trimEnd (take (length text - 3) text) else text)"

section \<open>Example states\<close>

text \<open>
  A state with both files loaded, a credential, and the result of an earlier run on
  display, for each of the two files; a completion service whose reply has no text; a
  setting in which every client is built; and one in which the OpenAI and the Anthropic
  client are built only with \<open>dangerouslyAllowBrowser\<close>, as in a browser (the message of
  the exception is abridged).
\<close>

definition exampleState :: AppState where
  "exampleState =
     \<lparr>file1Data = [[''1'', ''2'']], file2Data = [[''3'', ''4'']],
      headers1 = [''a'', ''b''], headers2 = [''c'', ''d''],
      processedHeaders = [''old''], processedData = [[''row'']],
      isProcessing = False, apiKey = ''secret'', error = ''stale'',
      processedResult = Some ''old\<newline>row'',
      selectedProvider = Gemini, selectedModel = ''gemini-1.5-pro''\<rparr>"

definition exampleState_part000 :: CoreState where
  "exampleState_part000 =
     \<lparr>file1Data = [[''1'', ''2'']], file2Data = [[''3'', ''4'']],
      headers1 = [''a'', ''b''], headers2 = [''c'', ''d''],
      processedHeaders = [''old''], processedData = [[''row'']],
      isProcessing = False, apiKey = ''secret'', error = ''stale'',
      processedResult = Some ''old\<newline>row''\<rparr>"

definition noText :: Completion where
  "noText request = Inr []"

definition everyClient :: ClientBuilder where
  "everyClient options = None"

definition browserClients :: ClientBuilder where
  "browserClients options =
     (if (sdk options = Openai \<or> sdk options = Claude) \<and> \<not> dangerouslyAllowBrowser options
      then Some (Error ''running in a browser-like environment'')
      else None)"

section \<open>Basic facts\<close>

lemma js_split_not_Nil: "js_split sep s \<noteq> []"
  by (induction s) (auto split: list.splits)

lemma parseLines_not_Nil: "parseLines csvText \<noteq> []"
  by (simp add: parseLines_def js_split_not_Nil)

section \<open>The column loop\<close>

lemma firstNonBlankColIndex_ge: "i \<le> firstNonBlankColIndex data i"
proof (induction data i rule: firstNonBlankColIndex.induct)
  case (1 data i)
  show ?case
  proof (cases "i < length (hd data) \<and> \<not> list_ex (\<lambda>row. js_index row i \<noteq> Some []) data")
    case True
    then have "firstNonBlankColIndex data i = firstNonBlankColIndex data (Suc i)"
      by (subst firstNonBlankColIndex.simps) simp
    moreover have "Suc i \<le> firstNonBlankColIndex data (Suc i)"
      using True "1.IH" by simp
    ultimately show ?thesis by simp
  next
    case False
    then have "firstNonBlankColIndex data i = i"
      by (subst firstNonBlankColIndex.simps) auto
    then show ?thesis by simp
  qed
qed

lemma firstNonBlankColIndex_le:
  "i \<le> length (hd data) \<Longrightarrow> firstNonBlankColIndex data i \<le> length (hd data)"
proof (induction data i rule: firstNonBlankColIndex.induct)
  case (1 data i)
  show ?case
  proof (cases "i < length (hd data) \<and> \<not> list_ex (\<lambda>row. js_index row i \<noteq> Some []) data")
    case True
    then have "firstNonBlankColIndex data i = firstNonBlankColIndex data (Suc i)"
      by (subst firstNonBlankColIndex.simps) simp
    moreover have "firstNonBlankColIndex data (Suc i) \<le> length (hd data)"
      using True "1.IH" by simp
    ultimately show ?thesis by simp
  next
    case False
    then have "firstNonBlankColIndex data i = i"
      by (subst firstNonBlankColIndex.simps) auto
    then show ?thesis using "1.prems" by simp
  qed
qed

lemma firstNonBlankColIndex_blank_before:
  "i \<le> j \<Longrightarrow> j < firstNonBlankColIndex data i \<Longrightarrow> row \<in> set data \<Longrightarrow> js_index row j = Some []"
proof (induction data i rule: firstNonBlankColIndex.induct)
  case (1 data i)
  show ?case
  proof (cases "i < length (hd data) \<and> \<not> list_ex (\<lambda>row. js_index row i \<noteq> Some []) data")
    case True
    then have eq: "firstNonBlankColIndex data i = firstNonBlankColIndex data (Suc i)"
      by (subst firstNonBlankColIndex.simps) simp
    show ?thesis
    proof (cases "j = i")
      case True
      with \<open>i < length (hd data) \<and> \<not> list_ex (\<lambda>row. js_index row i \<noteq> Some []) data\<close> "1.prems"(3)
      show ?thesis by (auto simp: list_ex_iff)
    next
      case False
      with "1.prems" have "Suc i \<le> j" by simp
      with True "1.IH" "1.prems" eq show ?thesis by simp
    qed
  next
    case False
    then have "firstNonBlankColIndex data i = i"
      by (subst firstNonBlankColIndex.simps) auto
    with "1.prems" show ?thesis by simp
  qed
qed

lemma firstNonBlankColIndex_stop:
  "firstNonBlankColIndex data i < length (hd data) \<Longrightarrow>
   \<exists>row\<in>set data. js_index row (firstNonBlankColIndex data i) \<noteq> Some []"
proof (induction data i rule: firstNonBlankColIndex.induct)
  case (1 data i)
  show ?case
  proof (cases "i < length (hd data) \<and> \<not> list_ex (\<lambda>row. js_index row i \<noteq> Some []) data")
    case True
    then have eq: "firstNonBlankColIndex data i = firstNonBlankColIndex data (Suc i)"
      by (subst firstNonBlankColIndex.simps) simp
    with True "1.IH" "1.prems" show ?thesis by simp
  next
    case False
    then have eq: "firstNonBlankColIndex data i = i"
      by (subst firstNonBlankColIndex.simps) auto
    with "1.prems" have "i < length (hd data)" by simp
    with False have "list_ex (\<lambda>row. js_index row i \<noteq> Some []) data" by simp
    with eq show ?thesis by (simp add: list_ex_iff)
  qed
qed

lemma firstNonBlankColIndex_part000_eq:
  "firstNonBlankColIndex_part000 data i = firstNonBlankColIndex data i"
proof (induction data i rule: firstNonBlankColIndex.induct)
  case (1 data i)
  then show ?case
    by (subst firstNonBlankColIndex.simps, subst firstNonBlankColIndex_part000.simps) simp
qed

section \<open>What the normalizer keeps and removes\<close>

lemma keptLines_not_Nil: "keptLines csvText \<noteq> []"
  by (simp add: keptLines_def)

lemma processCSV_eq:
  "processCSV csvText =
     (drop (leadingBlankColumns csvText) (hd (keptLines csvText)),
      map (drop (leadingBlankColumns csvText)) (tl (keptLines csvText)))"
  by (simp add: processCSV_def Let_def removeLeadingBlankColumns_def keptLines_def
      leadingBlankColumns_def)

lemma js_index_Some_Nil: "js_index row i = Some [] \<longleftrightarrow> i < length row \<and> row ! i = []"
  by (auto simp: js_index_def)

lemma leadingBlankColumns_le: "leadingBlankColumns csvText \<le> length (hd (keptLines csvText))"
  unfolding leadingBlankColumns_def by (rule firstNonBlankColIndex_le) simp

lemma before_leadingBlankColumns:
  assumes "i < leadingBlankColumns csvText" and "row \<in> set (keptLines csvText)"
  shows "i < length row \<and> row ! i = []"
proof -
  have "js_index row i = Some []"
    using assms firstNonBlankColIndex_blank_before [of 0 i "keptLines csvText" row]
    by (simp add: leadingBlankColumns_def)
  then show ?thesis by (simp add: js_index_Some_Nil)
qed

lemma someCell_tl_keptLines: "row \<in> set (tl (keptLines csvText)) \<Longrightarrow> someCell row"
  by (simp add: keptLines_def)

lemma someCell_drop:
  assumes "someCell row" and "\<forall>i<k. i < length row \<and> row ! i = []"
  shows "someCell (drop k row)"
proof -
  from assms(1) obtain j where j: "j < length row" "row ! j \<noteq> []"
    by (auto simp: someCell_def list_ex_iff in_set_conv_nth)
  with assms(2) have "k \<le> j" by (meson not_le_imp_less)
  with j have "j - k < length (drop k row)" "drop k row ! (j - k) = row ! j"
    by simp_all
  with j(2) show ?thesis
    unfolding someCell_def list_ex_iff by (metis nth_mem)
qed

lemma stop_leadingBlankColumns:
  assumes "leadingBlankColumns csvText < length (hd (keptLines csvText))"
  shows "\<not> blankColumn (keptLines csvText) (leadingBlankColumns csvText)"
proof -
  let ?k = "leadingBlankColumns csvText" and ?t = "keptLines csvText"
  from assms obtain row where row: "row \<in> set ?t" "js_index row ?k \<noteq> Some []"
    using firstNonBlankColIndex_stop [of ?t 0] by (auto simp: leadingBlankColumns_def)
  have "?k < length row"
  proof (cases "row = hd ?t")
    case True
    with assms show ?thesis by simp
  next
    case False
    with row(1) have "row \<in> set (tl ?t)"
      by (metis keptLines_not_Nil list.collapse set_ConsD)
    then have "someCell row" by (rule someCell_tl_keptLines)
    then obtain j where j: "j < length row" "row ! j \<noteq> []"
      by (auto simp: someCell_def list_ex_iff in_set_conv_nth)
    have "\<not> j < ?k" using before_leadingBlankColumns [OF _ row(1)] j(2) by blast
    with j(1) show ?thesis by simp
  qed
  with row(2) have "?k < length row \<and> row ! ?k \<noteq> []"
    by (simp add: js_index_def)
  with row(1) show ?thesis
    by (auto simp: blankColumn_def list_all_iff)
qed

lemma all_blank_keptLines:
  assumes "\<forall>line\<in>set (parseLines csvText). \<forall>cell\<in>set line. cell = []"
  shows "keptLines csvText = [hd (parseLines csvText)]"
proof -
  have "\<not> someCell line" if "line \<in> set (tl (parseLines csvText))" for line
  proof -
    from that have "line \<in> set (parseLines csvText)"
      by (meson list.set_sel(2) parseLines_not_Nil)
    with assms show ?thesis by (auto simp: someCell_def list_ex_iff)
  qed
  then have "filter someCell (tl (parseLines csvText)) = []"
    by (simp add: filter_empty_conv)
  then show ?thesis by (simp add: keptLines_def)
qed

section \<open>The scan for the closing fence\<close>

lemma trimEnd_Cons:
  "trimEnd (c # s) = (if trimEnd s = [] \<and> isWhiteSpace c then [] else c # trimEnd s)"
  by (simp add: trimEnd_def dropWhile_append)

lemma trimEnd_eq_Nil: "trimEnd s = [] \<longleftrightarrow> (\<forall>c\<in>set s. isWhiteSpace c)"
  by (simp add: trimEnd_def dropWhile_eq_Nil_conv)

lemma backquote_not_space [simp]: "\<not> isWhiteSpace (CHR 0x60)"
  by (simp add: isWhiteSpace_def)

lemma closingFence_iff:
  "closingFence s \<longleftrightarrow> (\<exists>w. s = w @ ''```'' \<and> (\<forall>c\<in>set w. isWhiteSpace c))"
proof
  assume "closingFence s"
  then have "dropWhile isWhiteSpace s = ''```''"
    by (simp add: closingFence_def)
  moreover have "takeWhile isWhiteSpace s @ dropWhile isWhiteSpace s = s"
    by simp
  ultimately have "s = takeWhile isWhiteSpace s @ ''```''"
    by simp
  moreover have "\<forall>c\<in>set (takeWhile isWhiteSpace s). isWhiteSpace c"
    by (auto dest: set_takeWhileD)
  ultimately show "\<exists>w. s = w @ ''```'' \<and> (\<forall>c\<in>set w. isWhiteSpace c)"
    by (rule_tac x = "takeWhile isWhiteSpace s" in exI) simp
next
  assume "\<exists>w. s = w @ ''```'' \<and> (\<forall>c\<in>set w. isWhiteSpace c)"
  then obtain w where "s = w @ ''```''" "\<forall>c\<in>set w. isWhiteSpace c" by (elim exE conjE)
  then show "closingFence s"
    by (simp add: closingFence_def dropWhile_append)
qed

lemma closingFenceI:
  "s = w @ ''```'' \<Longrightarrow> \<forall>c\<in>set w. isWhiteSpace c \<Longrightarrow> closingFence s"
  by (simp add: closingFence_def dropWhile_append)

lemma dropClosingFence_closing:
  assumes "closingFence s"
  shows "dropClosingFence s = []"
proof -
  from assms obtain w where s: "s = w @ ''```''" and w: "\<forall>c\<in>set w. isWhiteSpace c"
    unfolding closingFence_iff by (elim exE conjE)
  have "suffix ''```'' s" unfolding s by (rule suffixI) (rule refl)
  moreover have "take (length s - 3) s = w" by (simp add: s)
  ultimately show ?thesis using w by (simp add: dropClosingFence_def trimEnd_eq_Nil)
qed

lemma dropClosingFence_Cons:
  assumes "\<not> closingFence (c # cs)"
  shows "dropClosingFence (c # cs) = c # dropClosingFence cs"
proof (cases "suffix ''```'' cs")
  case True
  then obtain t where cs: "cs = t @ ''```''" by (rule suffixE)
  have "\<not> (trimEnd t = [] \<and> isWhiteSpace c)"
  proof
    assume "trimEnd t = [] \<and> isWhiteSpace c"
    then have "\<forall>x\<in>set (c # t). isWhiteSpace x" by (simp add: trimEnd_eq_Nil)
    moreover have "c # cs = (c # t) @ ''```''" by (simp add: cs)
    ultimately have "closingFence (c # cs)" by (rule closingFenceI [rotated])
    with assms show False by simp
  qed
  moreover have "suffix ''```'' (c # cs)" using True by (rule suffix_ConsI)
  moreover have "take (length (c # cs) - 3) (c # cs) = c # t" by (simp add: cs)
  moreover have "take (length cs - 3) cs = t" by (simp add: cs)
  ultimately show ?thesis using True
    by (simp only: dropClosingFence_def trimEnd_Cons if_True if_False)
next
  case False
  have "c # cs \<noteq> ''```''"
  proof
    assume "c # cs = ''```''"
    then have "c # cs = [] @ ''```''" by simp
    moreover have "\<forall>x\<in>set []. isWhiteSpace x" by simp
    ultimately have "closingFence (c # cs)" by (rule closingFenceI)
    with assms show False by simp
  qed
  then have "''```'' \<noteq> c # cs" by (rule not_sym)
  with False have "\<not> suffix ''```'' (c # cs)"
    unfolding suffix_Cons [of "''```''" c cs] by simp
  with False show ?thesis by (simp add: dropClosingFence_def)
qed

lemma scanClosingFence_eq: "scanClosingFence s = dropClosingFence s"
proof (induction s)
  case Nil
  show ?case by (simp add: dropClosingFence_def)
next
  case (Cons c cs)
  show ?case
  proof (cases "closingFence (c # cs)")
    case True
    then show ?thesis by (simp add: dropClosingFence_closing)
  next
    case False
    then show ?thesis by (simp add: dropClosingFence_Cons Cons.IH)
  qed
qed

lemma trimEnd_append_space:
  "\<forall>c\<in>set w. isWhiteSpace c \<Longrightarrow> trimEnd (s @ w) = trimEnd s"
  by (simp add: trimEnd_def dropWhile_append)

lemma trimEnd_clean: "s = [] \<or> \<not> isWhiteSpace (last s) \<Longrightarrow> trimEnd s = s"
  by (cases s rule: rev_cases) (simp_all add: trimEnd_def)

lemma stripFence_eq: "stripFence text = dropClosingFence (dropOpeningFence text)"
  by (simp add: stripFence_def dropOpeningFence_def scanClosingFence_eq)

lemma stripFence_fenced:
  assumes w: "\<forall>c\<in>set w. isWhiteSpace c" and w': "\<forall>c\<in>set w'. isWhiteSpace c"
    and body: "body = [] \<or> \<not> isWhiteSpace (hd body) \<and> \<not> isWhiteSpace (last body)"
  shows "stripFence (''```csv'' @ w @ body @ w' @ ''```'') = body"
proof -
  have "prefix ''```csv'' (''```csv'' @ w @ body @ w' @ ''```'')"
    by (rule prefixI) (rule refl)
  moreover have "drop 6 (''```csv'' @ w @ body @ w' @ ''```'') = w @ body @ w' @ ''```''"
    by simp
  ultimately have "dropOpeningFence (''```csv'' @ w @ body @ w' @ ''```'') =
      dropWhile isWhiteSpace (w @ body @ w' @ ''```'')"
    by (simp only: dropOpeningFence_def if_True)
  also have "\<dots> = dropWhile isWhiteSpace (body @ w' @ ''```'')"
    using w by (simp add: dropWhile_append)
  finally have op_eq: "dropOpeningFence (''```csv'' @ w @ body @ w' @ ''```'') =
      dropWhile isWhiteSpace (body @ w' @ ''```'')" .
  have cl_eq: "dropClosingFence (s @ ''```'') = trimEnd s" for s
  proof -
    have "suffix ''```'' (s @ ''```'')"
      by (rule suffixI) (rule refl)
    moreover have "take (length (s @ ''```'') - 3) (s @ ''```'') = s"
      by simp
    ultimately show ?thesis
      by (simp only: dropClosingFence_def if_True)
  qed
  show ?thesis
  proof (cases body)
    case Nil
    with w' have "dropWhile isWhiteSpace (body @ w' @ ''```'') = [] @ ''```''"
      by (simp add: dropWhile_append)
    then have "stripFence (''```csv'' @ w @ body @ w' @ ''```'') = trimEnd []"
      by (simp only: stripFence_eq op_eq cl_eq)
    with Nil show ?thesis by (simp add: trimEnd_def)
  next
    case (Cons b bs)
    with body have "dropWhile isWhiteSpace (body @ w' @ ''```'') = (body @ w') @ ''```''"
      by simp
    then have "stripFence (''```csv'' @ w @ body @ w' @ ''```'') = trimEnd (body @ w')"
      by (simp only: stripFence_eq op_eq cl_eq)
    also have "\<dots> = trimEnd body"
      using w' by (rule trimEnd_append_space)
    also have "\<dots> = body"
      using body by (intro trimEnd_clean) blast
    finally show ?thesis .
  qed
qed

section \<open>Splitting what was joined\<close>

lemma js_split_pieces: "w \<in> set (js_split sep s) \<Longrightarrow> sep \<notin> set w \<and> set w \<subseteq> set s"
proof (induction s arbitrary: w)
  case Nil
  then show ?case by simp
next
  case (Cons c cs)
  obtain p ps where ps: "js_split sep cs = p # ps"
    using js_split_not_Nil [of sep cs] by (cases "js_split sep cs") auto
  have p: "sep \<notin> set p \<and> set p \<subseteq> set cs"
    by (rule Cons.IH) (simp add: ps)
  show ?case
  proof (cases "c = sep")
    case True
    with Cons.prems have "w = [] \<or> w \<in> set (js_split sep cs)" by simp
    with Cons.IH show ?thesis by auto
  next
    case False
    with Cons.prems ps have "w = c # p \<or> w \<in> set ps" by simp
    then show ?thesis
    proof
      assume "w = c # p"
      with False p show ?thesis by auto
    next
      assume "w \<in> set ps"
      then have "w \<in> set (js_split sep cs)" by (simp add: ps)
      with Cons.IH show ?thesis by auto
    qed
  qed
qed

lemma js_split_append:
  "sep \<notin> set x \<Longrightarrow>
   js_split sep (x @ s) = (x @ hd (js_split sep s)) # tl (js_split sep s)"
proof (induction x)
  case Nil
  then show ?case using js_split_not_Nil [of sep s] by simp
next
  case (Cons c x)
  then show ?case by auto
qed

lemma js_split_join:
  assumes "sep \<notin> set t" and "xs \<noteq> []" and "\<forall>x\<in>set xs. sep \<notin> set x"
  shows "js_split sep (join (sep # t) xs) = hd xs # map ((@) t) (tl xs)"
  using assms(2,3)
proof (induction xs rule: induct_list012)
  case 1
  then show ?case by simp
next
  case (2 x)
  then have "sep \<notin> set x" by simp
  then have "js_split sep (x @ []) = (x @ hd (js_split sep [])) # tl (js_split sep [])"
    by (rule js_split_append)
  then show ?case by simp
next
  case (3 x y ys)
  have rest: "js_split sep (join (sep # t) (y # ys)) = y # map ((@) t) ys"
    using 3 by simp
  have x: "sep \<notin> set x"
    using 3 by simp
  have "js_split sep (join (sep # t) (x # y # ys)) =
      js_split sep (x @ sep # (t @ join (sep # t) (y # ys)))"
    by simp
  also have "\<dots> = x # js_split sep (t @ join (sep # t) (y # ys))"
    using js_split_append [OF x, of "sep # (t @ join (sep # t) (y # ys))"] by simp
  also have "\<dots> = x # (t @ y) # map ((@) t) ys"
    using js_split_append [OF assms(1), of "join (sep # t) (y # ys)"] by (simp add: rest)
  finally show ?case by simp
qed

lemma set_trimEnd: "set (trimEnd s) \<subseteq> set s"
  unfolding trimEnd_def using set_dropWhileD [of _ isWhiteSpace "rev s"] by auto

lemma set_trim: "set (trim s) \<subseteq> set s"
proof -
  have "set (dropWhile isWhiteSpace s) \<subseteq> set s"
    by (auto dest: set_dropWhileD)
  with set_trimEnd [of "dropWhile isWhiteSpace s"] show ?thesis
    unfolding trim_def by blast
qed

lemma set_dropFinalQuote: "set (dropFinalQuote s) \<subseteq> set s"
  by (induction s rule: dropFinalQuote.induct) auto

lemma set_stripQuotes: "set (stripQuotes s) \<subseteq> set s"
  using set_dropFinalQuote by (cases s) (auto simp: stripQuotes_def)

lemma set_cleanCell: "set (cleanCell s) \<subseteq> set s"
  unfolding cleanCell_def using set_stripQuotes [of "trim s"] set_trim [of s] by blast

lemma cleanCell_space: "isWhiteSpace c \<Longrightarrow> cleanCell (c # s) = cleanCell s"
  by (simp add: cleanCell_def trim_def)


lemma set_join: "c \<in> set (join sep xs) \<Longrightarrow> c \<in> set sep \<or> (\<exists>x\<in>set xs. c \<in> set x)"
  by (induction sep xs rule: join.induct) auto

lemma formatData_eq:
  "formatData headers data = join ''\<newline>'' (map (join '', '') (headers # data))"
  by (simp add: formatData_def)

lemma reparse_row_clean:
  assumes "row \<noteq> []" and "\<forall>cell\<in>set row. CHR '','' \<notin> set cell"
  shows "map cleanCell (js_split CHR '','' (join '', '' row)) = map cleanCell row"
proof -
  have "js_split CHR '','' (join (CHR '','' # '' '') row) = hd row # map ((@) '' '') (tl row)"
    using assms by (intro js_split_join) simp_all
  then have "map cleanCell (js_split CHR '','' (join '', '' row)) =
      cleanCell (hd row) # map (\<lambda>cell. cleanCell (CHR '' '' # cell)) (tl row)"
    by (simp add: comp_def)
  also have "\<dots> = cleanCell (hd row) # map cleanCell (tl row)"
    by (simp add: cleanCell_space isWhiteSpace_def)
  also have "\<dots> = map cleanCell row"
    using assms(1) by (cases row) simp_all
  finally show ?thesis .
qed

lemma reparse_clean:
  assumes "rows \<noteq> []"
    and "\<forall>row\<in>set rows. row \<noteq> [] \<and>
           (\<forall>cell\<in>set row. CHR '','' \<notin> set cell \<and> CHR 0x0A \<notin> set cell)"
  shows "parseLines (join ''\<newline>'' (map (join '', '') rows)) = map (map cleanCell) rows"
proof -
  let ?ls = "map (join '', '') rows"
  have "CHR 0x0A \<notin> set l" if "l \<in> set ?ls" for l
  proof
    assume nl: "CHR 0x0A \<in> set l"
    from that obtain row where row: "row \<in> set rows" "l = join '', '' row" by auto
    from nl have "CHR 0x0A \<in> set '', '' \<or> (\<exists>x\<in>set row. CHR 0x0A \<in> set x)"
      unfolding row(2) by (rule set_join)
    with assms(2) row(1) show False by auto
  qed
  then have "js_split CHR 0x0A (join (CHR 0x0A # []) ?ls) = hd ?ls # map ((@) []) (tl ?ls)"
    using assms(1) by (intro js_split_join) simp_all
  also have "\<dots> = ?ls"
    using assms(1) by (cases rows) simp_all
  finally have "parseLines (join ''\<newline>'' ?ls) =
      map (\<lambda>row. map cleanCell (js_split CHR '','' (join '', '' row))) rows"
    by (simp add: parseLines_def comp_def)
  also have "\<dots> = map (map cleanCell) rows"
    using assms(2) by (intro map_cong refl reparse_row_clean) auto
  finally show ?thesis .
qed

lemma map_idI_conv: "map f xs = xs \<longleftrightarrow> (\<forall>x\<in>set xs. f x = x)"
  by (induction xs) auto

lemma parseLines_rows:
  assumes "row \<in> set (parseLines csvText)"
  shows "row \<noteq> [] \<and> (\<forall>cell\<in>set row. CHR '','' \<notin> set cell \<and> CHR 0x0A \<notin> set cell)"
proof -
  from assms obtain line where line: "line \<in> set (js_split CHR 0x0A csvText)"
    and row: "row = map cleanCell (js_split CHR '','' line)"
    by (auto simp: parseLines_def)
  have nl: "CHR 0x0A \<notin> set line"
    using js_split_pieces [OF line] by simp
  have "CHR '','' \<notin> set cell \<and> CHR 0x0A \<notin> set cell" if "cell \<in> set row" for cell
  proof -
    from that row obtain w where w: "w \<in> set (js_split CHR '','' line)" "cell = cleanCell w"
      by auto
    from js_split_pieces [OF w(1)] nl have "CHR '','' \<notin> set w \<and> CHR 0x0A \<notin> set w"
      by auto
    with set_cleanCell [of w] show ?thesis unfolding w(2) by auto
  qed
  moreover have "row \<noteq> []"
    by (simp add: row js_split_not_Nil)
  ultimately show ?thesis by simp
qed

lemma keptLines_subset: "set (keptLines csvText) \<subseteq> set (parseLines csvText)"
proof -
  have "hd (parseLines csvText) \<in> set (parseLines csvText)"
    using parseLines_not_Nil by simp
  moreover have "set (tl (parseLines csvText)) \<subseteq> set (parseLines csvText)"
    by (meson list.set_sel(2) parseLines_not_Nil subsetI)
  ultimately show ?thesis by (auto simp: keptLines_def)
qed

lemma noBlankLeadingColumns_zero:
  assumes "noBlankLeadingColumns csvText"
  shows "leadingBlankColumns csvText = 0"
proof (rule ccontr)
  assume "leadingBlankColumns csvText \<noteq> 0"
  then have "0 < leadingBlankColumns csvText" by simp
  then have "\<forall>row\<in>set (keptLines csvText). 0 < length row \<and> row ! 0 = []"
    using before_leadingBlankColumns by blast
  then have "blankColumn (keptLines csvText) 0"
    by (simp add: blankColumn_def list_all_iff)
  with assms show False by (simp add: noBlankLeadingColumns_def)
qed

lemma zero_noBlankLeadingColumns:
  assumes "leadingBlankColumns csvText = 0"
  shows "noBlankLeadingColumns csvText"
proof -
  have "hd (keptLines csvText) \<in> set (parseLines csvText)"
    using keptLines_subset keptLines_not_Nil by (metis list.set_sel(1) subsetD)
  then have "hd (keptLines csvText) \<noteq> []"
    using parseLines_rows by blast
  with assms have "leadingBlankColumns csvText < length (hd (keptLines csvText))"
    by simp
  then have "\<not> blankColumn (keptLines csvText) (leadingBlankColumns csvText)"
    by (rule stop_leadingBlankColumns)
  with assms show ?thesis by (simp add: noBlankLeadingColumns_def)
qed

lemma keptLines_again:
  assumes "cleanCells (hd (keptLines csvText), tl (keptLines csvText))"
  shows "keptLines (formatData (hd (keptLines csvText)) (tl (keptLines csvText))) =
     keptLines csvText"
proof -
  let ?t = "keptLines csvText"
  have t: "hd ?t # tl ?t = ?t"
    using keptLines_not_Nil by simp
  have "\<forall>row\<in>set ?t. row \<noteq> [] \<and>
      (\<forall>cell\<in>set row. CHR '','' \<notin> set cell \<and> CHR 0x0A \<notin> set cell)"
  proof
    fix row
    assume "row \<in> set ?t"
    then have "row \<in> set (parseLines csvText)"
      using keptLines_subset by blast
    then show "row \<noteq> [] \<and>
      (\<forall>cell\<in>set row. CHR '','' \<notin> set cell \<and> CHR 0x0A \<notin> set cell)"
      by (rule parseLines_rows)
  qed
  with keptLines_not_Nil have "parseLines (join ''\<newline>'' (map (join '', '') ?t)) =
      map (map cleanCell) ?t"
    by (rule reparse_clean)
  moreover have "map (map cleanCell) ?t = ?t"
    using assms unfolding cleanCells_def map_idI_conv by (simp add: t list_all_iff)
  ultimately have p: "parseLines (formatData (hd ?t) (tl ?t)) = ?t"
    by (simp add: formatData_eq t)
  have "filter someCell (tl ?t) = tl ?t"
    by (simp add: keptLines_def)
  then show ?thesis
    unfolding keptLines_def [of "formatData (hd ?t) (tl ?t)"] p by (simp add: t)
qed

text \<open>
  The condition on the cells is needed: when the text has no blank leading columns and
  the normalized table comes back from its serialization, its cells are all clean.
\<close>

lemma filter_same_length: "length (filter P xs) = length xs \<Longrightarrow> filter P xs = xs"
proof (induction xs)
  case Nil
  show ?case by simp
next
  case (Cons x xs)
  have "length (filter P xs) \<le> length xs" by simp
  with Cons show ?case by (cases "P x") auto
qed

lemma clean_cells_needed:
  assumes nb: "noBlankLeadingColumns csvText"
    and idem: "processCSV (formatData (fst (processCSV csvText)) (snd (processCSV csvText))) =
      processCSV csvText"
  shows "cleanCells (processCSV csvText)"
proof -
  let ?t = "keptLines csvText"
  let ?h = "hd ?t" and ?d = "tl ?t"
  let ?s = "formatData ?h ?d"
  have t: "?h # ?d = ?t"
    using keptLines_not_Nil by simp
  have k: "leadingBlankColumns csvText = 0"
    using nb by (rule noBlankLeadingColumns_zero)
  have p: "processCSV csvText = (?h, ?d)"
    by (simp add: processCSV_eq k)
  have rows: "\<forall>row\<in>set ?t. row \<noteq> [] \<and>
      (\<forall>cell\<in>set row. CHR '','' \<notin> set cell \<and> CHR 0x0A \<notin> set cell)"
  proof
    fix row
    assume "row \<in> set ?t"
    then have "row \<in> set (parseLines csvText)"
      using keptLines_subset by blast
    then show "row \<noteq> [] \<and>
      (\<forall>cell\<in>set row. CHR '','' \<notin> set cell \<and> CHR 0x0A \<notin> set cell)"
      by (rule parseLines_rows)
  qed
  with keptLines_not_Nil have "parseLines (join ''\<newline>'' (map (join '', '') ?t)) =
      map (map cleanCell) ?t"
    by (rule reparse_clean)
  then have "parseLines ?s = map (map cleanCell) (?h # ?d)"
    by (simp add: formatData_eq t)
  then have kept: "keptLines ?s = map cleanCell ?h # filter someCell (map (map cleanCell) ?d)"
    by (simp add: keptLines_def)
  from idem have again: "processCSV ?s = (?h, ?d)"
    by (simp add: p)
  have "?h \<in> set ?t"
    using keptLines_not_Nil by simp
  with rows have h: "?h \<noteq> []"
    by blast
  from again have "drop (leadingBlankColumns ?s) (map cleanCell ?h) = ?h"
    by (simp add: processCSV_eq kept)
  then have "length (drop (leadingBlankColumns ?s) (map cleanCell ?h)) = length ?h"
    by simp
  then have "length ?h - leadingBlankColumns ?s = length ?h"
    by simp
  with h have k': "leadingBlankColumns ?s = 0"
    by (cases ?h) simp_all
  from again have hc: "map cleanCell ?h = ?h"
    and dc: "filter someCell (map (map cleanCell) ?d) = ?d"
    by (simp_all add: processCSV_eq kept k')
  from dc have "length (filter someCell (map (map cleanCell) ?d)) =
      length (map (map cleanCell) ?d)"
    by simp
  then have "filter someCell (map (map cleanCell) ?d) = map (map cleanCell) ?d"
    by (rule filter_same_length)
  with dc have "map (map cleanCell) ?d = ?d"
    by simp
  with hc have "map (map cleanCell) (?h # ?d) = ?h # ?d"
    by simp
  then have "\<forall>row\<in>set (?h # ?d). map cleanCell row = row"
    unfolding map_idI_conv .
  then have "\<forall>row\<in>set (?h # ?d). \<forall>cell\<in>set row. cleanCell cell = cell"
    unfolding map_idI_conv .
  then show ?thesis
    by (simp add: p cleanCells_def list_all_iff)
qed

section \<open>The process action\<close>

lemma processWithAI_no_key:
  "apiKey s = [] \<Longrightarrow>
   processWithAI newClient complete s =
     (s\<lparr>error := ''Please enter your '' @ toUpperCase (selectedProvider s) @ '' API key first''\<rparr>, [])"
  by (simp add: processWithAI_def)

lemma processWithOpenAI_no_key:
  "apiKey s0 = [] \<Longrightarrow>
   processWithOpenAI newClient complete s0 =
     (s0\<lparr>error := ''Please enter your OpenAI API key first''\<rparr>, [])"
  by (simp add: processWithOpenAI_def)

lemma processWithAI_no_file:
  "file1Data s = [] \<or> file2Data s = [] \<Longrightarrow> snd (processWithAI newClient complete s) = []"
  by (auto simp: processWithAI_def)

lemma processWithOpenAI_no_file:
  "file1Data s0 = [] \<or> file2Data s0 = [] \<Longrightarrow>
   snd (processWithOpenAI newClient complete s0) = []"
  by (auto simp: processWithOpenAI_def)

lemma processWithAI_request:
  assumes "apiKey s \<noteq> []" and "file1Data s \<noteq> []" and "file2Data s \<noteq> []"
  shows "snd (processWithAI newClient complete s) =
     (if buildClient newClient (clientOptions (selectedProvider s) (apiKey s)) = None
      then [\<lparr>provider = selectedProvider s, model = selectedModel s, key = apiKey s,
             content = getPrompt (headers1 s) (file1Data s) (headers2 s) (file2Data s)\<rparr>]
      else [])"
  using assms by (simp add: processWithAI_def Let_def split: option.splits)

lemma processWithAI_sent:
  assumes "snd (processWithAI newClient complete s) = [r]"
  shows "apiKey s \<noteq> [] \<and> file1Data s \<noteq> [] \<and> file2Data s \<noteq> [] \<and>
     buildClient newClient (clientOptions (selectedProvider s) (apiKey s)) = None \<and>
     r = \<lparr>provider = selectedProvider s, model = selectedModel s, key = apiKey s,
          content = getPrompt (headers1 s) (file1Data s) (headers2 s) (file2Data s)\<rparr>"
proof -
  have k: "apiKey s \<noteq> []"
    using assms processWithAI_no_key [of s newClient complete] by auto
  have f: "file1Data s \<noteq> []" "file2Data s \<noteq> []"
    using assms processWithAI_no_file [of s newClient complete] by auto
  from assms show ?thesis
    unfolding processWithAI_request [OF k f] using k f by (auto split: if_splits)
qed

lemma processWithAI_empty_reply:
  assumes "snd (processWithAI newClient complete s) = [r]" and "complete r = Inr []"
  shows "fst (processWithAI newClient complete s) =
     s\<lparr>isProcessing := False, error := [], processedResult := None\<rparr>"
proof -
  from assms(1) have k: "apiKey s \<noteq> []" "file1Data s \<noteq> []" "file2Data s \<noteq> []"
    and b: "buildClient newClient (clientOptions (selectedProvider s) (apiKey s)) = None"
    and r: "r = \<lparr>provider = selectedProvider s, model = selectedModel s, key = apiKey s,
          content = getPrompt (headers1 s) (file1Data s) (headers2 s) (file2Data s)\<rparr>"
    using processWithAI_sent by blast+
  from assms(2) show ?thesis
    unfolding r using k b by (simp add: processWithAI_def Let_def)
qed

lemma processWithOpenAI_request:
  assumes "apiKey s \<noteq> []" and "file1Data s \<noteq> []" and "file2Data s \<noteq> []"
  shows "snd (processWithOpenAI newClient complete s) =
     (if newClient \<lparr>sdk = Openai, sdkKey = apiKey s, dangerouslyAllowBrowser = True\<rparr> = None
      then [\<lparr>provider = Openai, model = ''o3-mini'', key = apiKey s,
             content = promptIntro_part000 @
               join ''\<newline>'' (map (join '','') (headers1 s # file1Data s)) @
               promptBetween_part000 @
               join ''\<newline>'' (map (join '','') (headers2 s # file2Data s))\<rparr>]
      else [])"
  using assms by (simp add: processWithOpenAI_def Let_def split: option.splits)

lemma processWithOpenAI_sent:
  assumes "snd (processWithOpenAI newClient complete s) = [r]"
  shows "apiKey s \<noteq> [] \<and> file1Data s \<noteq> [] \<and> file2Data s \<noteq> [] \<and>
     newClient \<lparr>sdk = Openai, sdkKey = apiKey s, dangerouslyAllowBrowser = True\<rparr> = None \<and>
     r = \<lparr>provider = Openai, model = ''o3-mini'', key = apiKey s,
          content = promptIntro_part000 @
            join ''\<newline>'' (map (join '','') (headers1 s # file1Data s)) @
            promptBetween_part000 @
            join ''\<newline>'' (map (join '','') (headers2 s # file2Data s))\<rparr>"
proof -
  have k: "apiKey s \<noteq> []"
    using assms processWithOpenAI_no_key [of s newClient complete] by auto
  have f: "file1Data s \<noteq> []" "file2Data s \<noteq> []"
    using assms processWithOpenAI_no_file [of s newClient complete] by auto
  from assms show ?thesis
    unfolding processWithOpenAI_request [OF k f] using k f by (auto split: if_splits)
qed

lemma processWithOpenAI_empty_reply:
  assumes "snd (processWithOpenAI newClient complete s) = [r]" and "complete r = Inr []"
  shows "fst (processWithOpenAI newClient complete s) =
     s\<lparr>isProcessing := False, error := [], processedResult := None\<rparr>"
proof -
  from assms(1) have k: "apiKey s \<noteq> []" "file1Data s \<noteq> []" "file2Data s \<noteq> []"
    and b: "newClient \<lparr>sdk = Openai, sdkKey = apiKey s, dangerouslyAllowBrowser = True\<rparr> = None"
    and r: "r = \<lparr>provider = Openai, model = ''o3-mini'', key = apiKey s,
          content = promptIntro_part000 @
            join ''\<newline>'' (map (join '','') (headers1 s # file1Data s)) @
            promptBetween_part000 @
            join ''\<newline>'' (map (join '','') (headers2 s # file2Data s))\<rparr>"
    using processWithOpenAI_sent by blast+
  from assms(2) show ?thesis
    unfolding r using k b by (simp add: processWithOpenAI_def Let_def)
qed

section \<open>The claims\<close>

text \<open>
  C1, as the code has it. The loop looks for the first non-blank column among the columns
  of the header line only (its bound is \<open>data[0].length\<close>): \<open>k\<close> is at most the length of
  the header line, every column below \<open>k\<close> is blank in the header line and in every kept
  row, and when \<open>k\<close> is below the length of the header line, column \<open>k\<close> is not blank. The
  result is the header line and the kept rows without their first \<open>k\<close> cells, and nothing
  else is removed. On the example of the specification the two blank columns go.
\<close>

theorem processCSV_strips_leading_blank_columns:
  "leadingBlankColumns csvText \<le> length (hd (keptLines csvText)) \<and>
   (\<forall>i<leadingBlankColumns csvText. blankColumn (keptLines csvText) i) \<and>
   (leadingBlankColumns csvText < length (hd (keptLines csvText)) \<longrightarrow>
      \<not> blankColumn (keptLines csvText) (leadingBlankColumns csvText)) \<and>
   processCSV csvText =
     (drop (leadingBlankColumns csvText) (hd (keptLines csvText)),
      map (drop (leadingBlankColumns csvText)) (tl (keptLines csvText))) \<and>
   processCSV '',,a,b\<newline>,,1,2'' = ([''a'', ''b''], [[''1'', ''2'']])"
proof (intro conjI allI impI)
  show "leadingBlankColumns csvText \<le> length (hd (keptLines csvText))"
    by (rule leadingBlankColumns_le)
  show "blankColumn (keptLines csvText) i" if "i < leadingBlankColumns csvText" for i
    using before_leadingBlankColumns [OF that] by (simp add: blankColumn_def list_all_iff)
  show "\<not> blankColumn (keptLines csvText) (leadingBlankColumns csvText)"
    if "leadingBlankColumns csvText < length (hd (keptLines csvText))"
    using that by (rule stop_leadingBlankColumns)
  show "processCSV csvText =
     (drop (leadingBlankColumns csvText) (hd (keptLines csvText)),
      map (drop (leadingBlankColumns csvText)) (tl (keptLines csvText)))"
    by (rule processCSV_eq)
  show "processCSV '',,a,b\<newline>,,1,2'' = ([''a'', ''b''], [[''1'', ''2'']])"
    by code_simp
qed

theorem processCSV_strips_leading_blank_columns_witness:
  "leadingBlankColumns '',,a,b\<newline>,,1,2'' = 2 \<and>
   blankColumn (keptLines '',,a,b\<newline>,,1,2'') 0 \<and>
   blankColumn (keptLines '',,a,b\<newline>,,1,2'') 1 \<and>
   \<not> blankColumn (keptLines '',,a,b\<newline>,,1,2'') 2 \<and>
   processCSV '',,a,b\<newline>,,1,2'' =
     (drop 2 (hd (keptLines '',,a,b\<newline>,,1,2'')),
      map (drop 2) (tl (keptLines '',,a,b\<newline>,,1,2'')))"
proof -
  have k: "leadingBlankColumns '',,a,b\<newline>,,1,2'' = 2"
    by code_simp
  have w: "length (hd (keptLines '',,a,b\<newline>,,1,2'')) = 4"
    by code_simp
  have "(0::nat) < 2" and "(1::nat) < 2" and "(2::nat) < 4"
    by simp_all
  with processCSV_strips_leading_blank_columns [of "'',,a,b\<newline>,,1,2''"] k w
  show ?thesis by simp
qed

text \<open>
  C1, as the claim states it, fails on a blank header line that is shorter than the blank
  prefix of a row: the first column with a non-empty cell is column 3, the loop stops at
  the length of the header line, 1, and the returned row keeps two blank leading cells.
\<close>

theorem processCSV_strips_leading_blank_columns_counterexample:
  "firstNonEmptyColumn_spec (keptLines ''\<newline>,,,x'') = Some 3 \<and>
   leadingBlankColumns ''\<newline>,,,x'' = 1 \<and>
   processCSV ''\<newline>,,,x'' = ([], [['''', '''', ''x'']])"
  by code_simp

text \<open>
  C2, as the code has it. For a CSV text with no blank leading columns whose normalized
  cells are all clean, normalizing the serialization of the normalized table (cells joined
  by \<open>", "\<close>, lines by newline, as \<open>formatData\<close> does) gives the normalized table again.
\<close>

theorem normalize_idempotent:
  assumes "noBlankLeadingColumns csvText" and "cleanCells (processCSV csvText)"
  shows "processCSV (formatData (fst (processCSV csvText)) (snd (processCSV csvText))) =
     processCSV csvText"
proof -
  have k: "leadingBlankColumns csvText = 0"
    using assms(1) by (rule noBlankLeadingColumns_zero)
  have p: "processCSV csvText = (hd (keptLines csvText), tl (keptLines csvText))"
    by (simp add: processCSV_eq k)
  have "keptLines (formatData (hd (keptLines csvText)) (tl (keptLines csvText))) =
      keptLines csvText"
    using assms(2) unfolding p by (rule keptLines_again)
  then have "processCSV (formatData (hd (keptLines csvText)) (tl (keptLines csvText))) =
      processCSV csvText"
    by (simp add: processCSV_eq leadingBlankColumns_def)
  then show ?thesis by (simp add: p)
qed

theorem normalize_idempotent_witness:
  "noBlankLeadingColumns ''a,b\<newline>1,2'' \<and> cleanCells (processCSV ''a,b\<newline>1,2'') \<and>
   formatData (fst (processCSV ''a,b\<newline>1,2'')) (snd (processCSV ''a,b\<newline>1,2'')) = ''a, b\<newline>1, 2'' \<and>
   processCSV ''a, b\<newline>1, 2'' = processCSV ''a,b\<newline>1,2''"
proof -
  have h: "noBlankLeadingColumns ''a,b\<newline>1,2''" "cleanCells (processCSV ''a,b\<newline>1,2'')"
    by code_simp+
  have f: "formatData (fst (processCSV ''a,b\<newline>1,2'')) (snd (processCSV ''a,b\<newline>1,2'')) =
      ''a, b\<newline>1, 2''"
    by code_simp
  from normalize_idempotent [OF h] h f show ?thesis by simp
qed

text \<open>
  C2, as the claim states it, fails: cleaning a cell is not idempotent. The text of one
  cell \<open>""a""\<close> has no blank leading column; it is normalized to the cell \<open>"a"\<close>, whose
  serialization is normalized to the cell \<open>a\<close>.
\<close>

theorem normalize_idempotent_counterexample:
  "noBlankLeadingColumns [dquote, dquote, CHR ''a'', dquote, dquote] \<and>
   processCSV [dquote, dquote, CHR ''a'', dquote, dquote] = ([[dquote, CHR ''a'', dquote]], []) \<and>
   formatData [[dquote, CHR ''a'', dquote]] [] = [dquote, CHR ''a'', dquote] \<and>
   processCSV [dquote, CHR ''a'', dquote] = ([''a''], []) \<and>
   processCSV (formatData (fst (processCSV [dquote, dquote, CHR ''a'', dquote, dquote]))
                          (snd (processCSV [dquote, dquote, CHR ''a'', dquote, dquote]))) \<noteq>
     processCSV [dquote, dquote, CHR ''a'', dquote, dquote]"
  by code_simp

text \<open>
  C3, as the code has it. On the csv-tagged fence around two CSV lines the replacement
  returns the two lines with no newline at the end: the white space in front of the closing
  fence belongs to the match of \<open>\s*```$\<close> and is removed with it.
\<close>

theorem stripFence_example:
  "stripFence ''```csv\<newline>a,b\<newline>1,2\<newline>```'' = ''a,b\<newline>1,2''"
  by (simp add: stripFence_def closingFence_def isWhiteSpace_def)

text \<open>
  C3, as the claim states it, fails: the result is not the text with a newline at the end.
\<close>

theorem stripFence_example_counterexample:
  "stripFence ''```csv\<newline>a,b\<newline>1,2\<newline>```'' \<noteq> ''a,b\<newline>1,2\<newline>''"
  by (simp add: stripFence_def closingFence_def isWhiteSpace_def)

text \<open>
  C4, as the code has it. \<open>stripFence\<close> removes an opening fence only when it is the
  csv-tagged marker at the very start of the text, together with the white space after it,
  and a closing fence only when its three backquotes end the text, together with the white
  space in front of them. So a text made of the csv-tagged fence, white space, a body with
  no white space at either end, white space and the closing fence is reduced to the body.
  Everything else stays: an untagged opening fence, white space in front of the opening
  fence, white space after the closing fence.
\<close>

theorem stripFence_contract:
  "stripFence text = dropClosingFence (dropOpeningFence text) \<and>
   (\<forall>w body w'.
      (\<forall>c\<in>set w. isWhiteSpace c) \<and> (\<forall>c\<in>set w'. isWhiteSpace c) \<and>
      (body = [] \<or> \<not> isWhiteSpace (hd body) \<and> \<not> isWhiteSpace (last body)) \<longrightarrow>
      stripFence (''```csv'' @ w @ body @ w' @ ''```'') = body)"
  using stripFence_eq stripFence_fenced by blast

theorem stripFence_contract_witness:
  "stripFence (''```csv'' @ ''\<newline>'' @ ''a,b'' @ '' \<newline>'' @ ''```'') = ''a,b'' \<and>
   stripFence '' ```csv\<newline>a,b\<newline>```\<newline>'' =
     dropClosingFence (dropOpeningFence '' ```csv\<newline>a,b\<newline>```\<newline>'') \<and>
   dropClosingFence (dropOpeningFence '' ```csv\<newline>a,b\<newline>```\<newline>'') =
     '' ```csv\<newline>a,b\<newline>```\<newline>''"
proof -
  have h: "(\<forall>c\<in>set ''\<newline>''. isWhiteSpace c) \<and> (\<forall>c\<in>set '' \<newline>''. isWhiteSpace c) \<and>
      (''a,b'' = [] \<or> \<not> isWhiteSpace (hd ''a,b'') \<and> \<not> isWhiteSpace (last ''a,b''))"
    by (simp add: isWhiteSpace_def)
  have c: "dropClosingFence (dropOpeningFence '' ```csv\<newline>a,b\<newline>```\<newline>'') =
     '' ```csv\<newline>a,b\<newline>```\<newline>''"
    by code_simp
  from stripFence_contract [of "'' ```csv\<newline>a,b\<newline>```\<newline>''"] h c show ?thesis
    by blast
qed

text \<open>
  C4, as the claim states it, fails: an untagged opening fence is not removed, a tagged one
  with white space in front of it is not removed, and a closing fence with white space
  after it is not removed.
\<close>

theorem stripFence_contract_counterexample:
  "stripFence ''```\<newline>a,b\<newline>```'' = ''```\<newline>a,b'' \<and>
   stripFence '' ```csv\<newline>a,b\<newline>```'' = '' ```csv\<newline>a,b'' \<and>
   stripFence ''```csv\<newline>a,b\<newline>```\<newline>'' = ''a,b\<newline>```\<newline>''"
  by code_simp

text \<open>
  C5. When every cell of the input is empty after cleaning, \<open>k\<close> is the number of columns
  of the header line (the only line that is kept), the returned headers are empty, and
  every returned row is empty: there is no returned row at all, the data lines being
  dropped as blank.
\<close>

theorem processCSV_all_blank:
  assumes "\<forall>line\<in>set (parseLines csvText). \<forall>cell\<in>set line. cell = []"
  shows "leadingBlankColumns csvText = length (hd (keptLines csvText)) \<and>
         fst (processCSV csvText) = [] \<and>
         (\<forall>row\<in>set (snd (processCSV csvText)). row = []) \<and>
         snd (processCSV csvText) = []"
proof -
  let ?k = "leadingBlankColumns csvText" and ?t = "keptLines csvText"
  have t: "?t = [hd (parseLines csvText)]"
    using assms by (rule all_blank_keptLines)
  have cells: "\<forall>cell\<in>set (hd ?t). cell = []"
    using assms t parseLines_not_Nil [of csvText] by (metis list.sel(1) list.set_sel(1))
  have "\<not> ?k < length (hd ?t)"
  proof
    assume less: "?k < length (hd ?t)"
    then have "\<not> blankColumn ?t ?k" by (rule stop_leadingBlankColumns)
    then have "hd ?t ! ?k \<noteq> []"
      by (subst (asm) t) (simp add: blankColumn_def t)
    with cells less show False by (meson nth_mem)
  qed
  with leadingBlankColumns_le [of csvText] have k: "?k = length (hd ?t)"
    by simp
  have "processCSV csvText = ([], [])"
    by (subst processCSV_eq) (simp add: k, simp add: t)
  with k show ?thesis by simp
qed

theorem processCSV_all_blank_witness:
  "list_all (list_all (\<lambda>cell. cell = [])) (parseLines '',,'') \<and>
   length (hd (keptLines '',,'')) = 3 \<and>
   leadingBlankColumns '',,'' = 3 \<and>
   processCSV '',,'' = ([], [])"
proof -
  have h: "list_all (list_all (\<lambda>cell. cell = [])) (parseLines '',,'')"
    by code_simp
  then have "\<forall>line\<in>set (parseLines '',,''). \<forall>cell\<in>set line. cell = []"
    by (simp add: list_all_iff)
  from processCSV_all_blank [OF this] have
    "leadingBlankColumns '',,'' = length (hd (keptLines '',,''))"
    "processCSV '',,'' = ([], [])"
    by (simp_all add: prod_eq_iff)
  moreover have "length (hd (keptLines '',,'')) = 3"
    by code_simp
  ultimately show ?thesis using h by simp
qed

text \<open>
  C6. When the request that the process action has sent is answered without text, the
  processed headers and the processed rows keep their prior values, the prior result is
  cleared, and the error message is empty. This holds for \<open>processWithAI\<close> of
  \<open>src/App.tsx\<close> and for \<open>processWithOpenAI\<close> of \<open>src/unnamed/part_000\<close>.
\<close>

theorem empty_response_ignored:
  "(snd (processWithAI newClient complete s) = [r] \<and> complete r = Inr [] \<longrightarrow>
      processedHeaders (fst (processWithAI newClient complete s)) = processedHeaders s \<and>
      processedData (fst (processWithAI newClient complete s)) = processedData s \<and>
      processedResult (fst (processWithAI newClient complete s)) = None \<and>
      error (fst (processWithAI newClient complete s)) = []) \<and>
   (snd (processWithOpenAI newClient complete s0) = [r0] \<and> complete r0 = Inr [] \<longrightarrow>
      processedHeaders (fst (processWithOpenAI newClient complete s0)) = processedHeaders s0 \<and>
      processedData (fst (processWithOpenAI newClient complete s0)) = processedData s0 \<and>
      processedResult (fst (processWithOpenAI newClient complete s0)) = None \<and>
      error (fst (processWithOpenAI newClient complete s0)) = [])"
  by (simp add: processWithAI_empty_reply processWithOpenAI_empty_reply)

theorem empty_response_ignored_witness:
  "snd (processWithAI everyClient noText exampleState) =
     [\<lparr>provider = Gemini, model = ''gemini-1.5-pro'', key = ''secret'',
       content = getPrompt [''a'', ''b''] [[''1'', ''2'']] [''c'', ''d''] [[''3'', ''4'']]\<rparr>] \<and>
   noText \<lparr>provider = Gemini, model = ''gemini-1.5-pro'', key = ''secret'',
       content = getPrompt [''a'', ''b''] [[''1'', ''2'']] [''c'', ''d''] [[''3'', ''4'']]\<rparr> = Inr [] \<and>
   processedHeaders (fst (processWithAI everyClient noText exampleState)) = [''old''] \<and>
   processedData (fst (processWithAI everyClient noText exampleState)) = [[''row'']] \<and>
   processedResult (fst (processWithAI everyClient noText exampleState)) = None \<and>
   error (fst (processWithAI everyClient noText exampleState)) = [] \<and>
   snd (processWithOpenAI everyClient noText exampleState_part000) =
     [\<lparr>provider = Openai, model = ''o3-mini'', key = ''secret'',
       content = promptIntro_part000 @ ''a,b\<newline>1,2'' @ promptBetween_part000 @ ''c,d\<newline>3,4''\<rparr>] \<and>
   processedHeaders (fst (processWithOpenAI everyClient noText exampleState_part000)) = [''old''] \<and>
   processedData (fst (processWithOpenAI everyClient noText exampleState_part000)) = [[''row'']] \<and>
   processedResult (fst (processWithOpenAI everyClient noText exampleState_part000)) = None \<and>
   error (fst (processWithOpenAI everyClient noText exampleState_part000)) = []"
proof -
  let ?r = "\<lparr>provider = Gemini, model = ''gemini-1.5-pro'', key = ''secret'',
       content = getPrompt [''a'', ''b''] [[''1'', ''2'']] [''c'', ''d''] [[''3'', ''4'']]\<rparr>"
  let ?q = "\<lparr>provider = Openai, model = ''o3-mini'', key = ''secret'',
       content = promptIntro_part000 @ ''a,b\<newline>1,2'' @ promptBetween_part000 @ ''c,d\<newline>3,4''\<rparr>"
  have sent: "snd (processWithAI everyClient noText exampleState) = [?r]"
    by (simp add: processWithAI_def exampleState_def Let_def buildClient_def everyClient_def)
  have sent0: "snd (processWithOpenAI everyClient noText exampleState_part000) = [?q]"
    by (simp add: processWithOpenAI_def exampleState_part000_def Let_def everyClient_def)
  have reply: "noText ?r = Inr []" "noText ?q = Inr []"
    by (simp_all add: noText_def)
  have prior: "processedHeaders exampleState = [''old'']" "processedData exampleState = [[''row'']]"
    "processedHeaders exampleState_part000 = [''old'']"
    "processedData exampleState_part000 = [[''row'']]"
    by (simp_all add: exampleState_def exampleState_part000_def)
  from empty_response_ignored [of everyClient noText exampleState ?r exampleState_part000 ?q]
    sent sent0 reply prior
  show ?thesis by simp
qed

text \<open>
  C7. Without a credential the process action sets the error message that asks for the
  key, which is not empty, changes nothing else in the state, and sends no request,
  whatever the provider libraries and the completion service would have done. This holds
  for \<open>processWithAI\<close> and for \<open>processWithOpenAI\<close>.
\<close>

theorem missing_credential:
  "(apiKey s = [] \<longrightarrow>
      fst (processWithAI newClient complete s) =
        s\<lparr>error := ''Please enter your '' @ toUpperCase (selectedProvider s) @
                     '' API key first''\<rparr> \<and>
      error (fst (processWithAI newClient complete s)) \<noteq> [] \<and>
      snd (processWithAI newClient complete s) = []) \<and>
   (apiKey s0 = [] \<longrightarrow>
      fst (processWithOpenAI newClient complete s0) =
        s0\<lparr>error := ''Please enter your OpenAI API key first''\<rparr> \<and>
      error (fst (processWithOpenAI newClient complete s0)) \<noteq> [] \<and>
      snd (processWithOpenAI newClient complete s0) = [])"
  by (simp add: processWithAI_no_key processWithOpenAI_no_key)

theorem missing_credential_witness:
  "apiKey (exampleState\<lparr>apiKey := []\<rparr>) = [] \<and>
   fst (processWithAI everyClient noText (exampleState\<lparr>apiKey := []\<rparr>)) =
     exampleState\<lparr>apiKey := [], error := ''Please enter your GEMINI API key first''\<rparr> \<and>
   snd (processWithAI everyClient noText (exampleState\<lparr>apiKey := []\<rparr>)) = [] \<and>
   apiKey (exampleState_part000\<lparr>apiKey := []\<rparr>) = [] \<and>
   fst (processWithOpenAI everyClient noText (exampleState_part000\<lparr>apiKey := []\<rparr>)) =
     exampleState_part000\<lparr>apiKey := [], error := ''Please enter your OpenAI API key first''\<rparr> \<and>
   snd (processWithOpenAI everyClient noText (exampleState_part000\<lparr>apiKey := []\<rparr>)) = []"
proof -
  have "selectedProvider (exampleState\<lparr>apiKey := []\<rparr>) = Gemini"
    by (simp add: exampleState_def)
  with missing_credential [of "exampleState\<lparr>apiKey := []\<rparr>" everyClient noText
      "exampleState_part000\<lparr>apiKey := []\<rparr>"]
  show ?thesis by simp
qed

text \<open>
  C8, as the code has it. The prompt builder of \<open>src/App.tsx\<close> serializes a table as
  its lines joined by newline, the headers and each row being their cells joined by
  \<open>", "\<close>. \<open>processWithAI\<close> sends a request only with a credential and with at least
  one data row in each of the two tables, and then at most one: exactly one when the
  client of the selected provider is built (or none is needed), and none when its
  constructor throws. The prompt of the request is the fixed template with the
  serialization of the first table and that of the second in its two places.
  \<open>processWithOpenAI\<close> of \<open>src/unnamed/part_000\<close> sends its request under the same
  conditions, and its prompt, built in place, is a fixed template of its own around the
  two tables with their cells joined by a comma alone.
\<close>

theorem prompt_carries_both_tables:
  "formatData headers data = join ''\<newline>'' (map (join '', '') (headers # data)) \<and>
   (apiKey s \<noteq> [] \<and> file1Data s \<noteq> [] \<and> file2Data s \<noteq> [] \<longrightarrow>
      snd (processWithAI newClient complete s) =
        (if buildClient newClient (clientOptions (selectedProvider s) (apiKey s)) = None
         then [\<lparr>provider = selectedProvider s, model = selectedModel s, key = apiKey s,
                content = promptIntro @ formatData (headers1 s) (file1Data s) @
                          promptBetween @ formatData (headers2 s) (file2Data s)\<rparr>]
         else [])) \<and>
   (apiKey s = [] \<or> file1Data s = [] \<or> file2Data s = [] \<longrightarrow>
      snd (processWithAI newClient complete s) = []) \<and>
   (apiKey s0 \<noteq> [] \<and> file1Data s0 \<noteq> [] \<and> file2Data s0 \<noteq> [] \<longrightarrow>
      snd (processWithOpenAI newClient complete s0) =
        (if newClient \<lparr>sdk = Openai, sdkKey = apiKey s0, dangerouslyAllowBrowser = True\<rparr> = None
         then [\<lparr>provider = Openai, model = ''o3-mini'', key = apiKey s0,
                content = promptIntro_part000 @
                          join ''\<newline>'' (map (join '','') (headers1 s0 # file1Data s0)) @
                          promptBetween_part000 @
                          join ''\<newline>'' (map (join '','') (headers2 s0 # file2Data s0))\<rparr>]
         else [])) \<and>
   (apiKey s0 = [] \<or> file1Data s0 = [] \<or> file2Data s0 = [] \<longrightarrow>
      snd (processWithOpenAI newClient complete s0) = [])"
proof (intro conjI impI)
  show "formatData headers data = join ''\<newline>'' (map (join '', '') (headers # data))"
    by (simp add: formatData_def)
  show "snd (processWithAI newClient complete s) =
        (if buildClient newClient (clientOptions (selectedProvider s) (apiKey s)) = None
         then [\<lparr>provider = selectedProvider s, model = selectedModel s, key = apiKey s,
                content = promptIntro @ formatData (headers1 s) (file1Data s) @
                          promptBetween @ formatData (headers2 s) (file2Data s)\<rparr>]
         else [])"
    if "apiKey s \<noteq> [] \<and> file1Data s \<noteq> [] \<and> file2Data s \<noteq> []"
    using that by (simp add: processWithAI_request getPrompt_def Let_def)
  show "snd (processWithAI newClient complete s) = []"
    if "apiKey s = [] \<or> file1Data s = [] \<or> file2Data s = []"
    using that processWithAI_no_key [of s newClient complete]
      processWithAI_no_file [of s newClient complete] by auto
  show "snd (processWithOpenAI newClient complete s0) =
        (if newClient \<lparr>sdk = Openai, sdkKey = apiKey s0, dangerouslyAllowBrowser = True\<rparr> = None
         then [\<lparr>provider = Openai, model = ''o3-mini'', key = apiKey s0,
                content = promptIntro_part000 @
                          join ''\<newline>'' (map (join '','') (headers1 s0 # file1Data s0)) @
                          promptBetween_part000 @
                          join ''\<newline>'' (map (join '','') (headers2 s0 # file2Data s0))\<rparr>]
         else [])"
    if "apiKey s0 \<noteq> [] \<and> file1Data s0 \<noteq> [] \<and> file2Data s0 \<noteq> []"
    using that by (simp add: processWithOpenAI_request)
  show "snd (processWithOpenAI newClient complete s0) = []"
    if "apiKey s0 = [] \<or> file1Data s0 = [] \<or> file2Data s0 = []"
    using that processWithOpenAI_no_key [of s0 newClient complete]
      processWithOpenAI_no_file [of s0 newClient complete] by auto
qed

theorem prompt_carries_both_tables_witness:
  "apiKey exampleState \<noteq> [] \<and> file1Data exampleState \<noteq> [] \<and> file2Data exampleState \<noteq> [] \<and>
   buildClient everyClient
     (clientOptions (selectedProvider exampleState) (apiKey exampleState)) = None \<and>
   formatData [''a'', ''b''] [[''1'', ''2'']] = ''a, b\<newline>1, 2'' \<and>
   formatData [''c'', ''d''] [[''3'', ''4'']] = ''c, d\<newline>3, 4'' \<and>
   snd (processWithAI everyClient noText exampleState) =
     [\<lparr>provider = Gemini, model = ''gemini-1.5-pro'', key = ''secret'',
       content = promptIntro @ ''a, b\<newline>1, 2'' @ promptBetween @ ''c, d\<newline>3, 4''\<rparr>] \<and>
   file1Data (exampleState\<lparr>file1Data := []\<rparr>) = [] \<and>
   snd (processWithAI everyClient noText (exampleState\<lparr>file1Data := []\<rparr>)) = [] \<and>
   apiKey exampleState_part000 \<noteq> [] \<and> file1Data exampleState_part000 \<noteq> [] \<and>
   file2Data exampleState_part000 \<noteq> [] \<and>
   everyClient \<lparr>sdk = Openai, sdkKey = apiKey exampleState_part000,
                 dangerouslyAllowBrowser = True\<rparr> = None \<and>
   snd (processWithOpenAI everyClient noText exampleState_part000) =
     [\<lparr>provider = Openai, model = ''o3-mini'', key = ''secret'',
       content = promptIntro_part000 @ ''a,b\<newline>1,2'' @ promptBetween_part000 @ ''c,d\<newline>3,4''\<rparr>] \<and>
   file2Data (exampleState_part000\<lparr>file2Data := []\<rparr>) = [] \<and>
   snd (processWithOpenAI everyClient noText (exampleState_part000\<lparr>file2Data := []\<rparr>)) = [] \<and>
   buildClient browserClients (clientOptions Claude ''secret'') =
     Some (Error ''running in a browser-like environment'') \<and>
   snd (processWithAI browserClients noText (exampleState\<lparr>selectedProvider := Claude\<rparr>)) = []"
proof -
  have h: "apiKey exampleState \<noteq> [] \<and> file1Data exampleState \<noteq> [] \<and>
      file2Data exampleState \<noteq> []"
    by (simp add: exampleState_def)
  have r: "buildClient browserClients (clientOptions Claude ''secret'') =
      Some (Error ''running in a browser-like environment'')"
    by (simp add: buildClient_def browserClients_def)
  have hc: "apiKey (exampleState\<lparr>selectedProvider := Claude\<rparr>) \<noteq> [] \<and>
      file1Data (exampleState\<lparr>selectedProvider := Claude\<rparr>) \<noteq> [] \<and>
      file2Data (exampleState\<lparr>selectedProvider := Claude\<rparr>) \<noteq> []"
    "selectedProvider (exampleState\<lparr>selectedProvider := Claude\<rparr>) = Claude"
    "apiKey (exampleState\<lparr>selectedProvider := Claude\<rparr>) = ''secret''"
    by (simp_all add: exampleState_def)
  from prompt_carries_both_tables [of _ _ "exampleState\<lparr>selectedProvider := Claude\<rparr>"
      browserClients noText] hc r
  have x: "snd (processWithAI browserClients noText
      (exampleState\<lparr>selectedProvider := Claude\<rparr>)) = []"
    by simp
  have h0: "apiKey exampleState_part000 \<noteq> [] \<and> file1Data exampleState_part000 \<noteq> [] \<and>
      file2Data exampleState_part000 \<noteq> []"
    by (simp add: exampleState_part000_def)
  have b: "buildClient everyClient
      (clientOptions (selectedProvider exampleState) (apiKey exampleState)) = None"
    by (simp add: buildClient_def everyClient_def split: option.splits)
  have b0: "everyClient \<lparr>sdk = Openai, sdkKey = apiKey exampleState_part000,
      dangerouslyAllowBrowser = True\<rparr> = None"
    by (simp add: everyClient_def)
  have f: "formatData [''a'', ''b''] [[''1'', ''2'']] = ''a, b\<newline>1, 2''"
    "formatData [''c'', ''d''] [[''3'', ''4'']] = ''c, d\<newline>3, 4''"
    by (simp_all add: formatData_def)
  have e: "headers1 exampleState = [''a'', ''b'']" "file1Data exampleState = [[''1'', ''2'']]"
    "headers2 exampleState = [''c'', ''d'']" "file2Data exampleState = [[''3'', ''4'']]"
    "selectedProvider exampleState = Gemini" "selectedModel exampleState = ''gemini-1.5-pro''"
    "apiKey exampleState = ''secret''"
    by (simp_all add: exampleState_def)
  have e0: "headers1 exampleState_part000 = [''a'', ''b'']"
    "file1Data exampleState_part000 = [[''1'', ''2'']]"
    "headers2 exampleState_part000 = [''c'', ''d'']"
    "file2Data exampleState_part000 = [[''3'', ''4'']]"
    "apiKey exampleState_part000 = ''secret''"
    by (simp_all add: exampleState_part000_def)
  note t = prompt_carries_both_tables [of _ _ exampleState everyClient noText
      exampleState_part000]
  from t h b
  have a: "snd (processWithAI everyClient noText exampleState) =
        [\<lparr>provider = selectedProvider exampleState, model = selectedModel exampleState,
          key = apiKey exampleState,
          content = promptIntro @ formatData (headers1 exampleState) (file1Data exampleState) @
                    promptBetween @ formatData (headers2 exampleState) (file2Data exampleState)\<rparr>]"
    by simp
  from t h0 b0
  have c: "snd (processWithOpenAI everyClient noText exampleState_part000) =
        [\<lparr>provider = Openai, model = ''o3-mini'', key = apiKey exampleState_part000,
          content = promptIntro_part000 @
            join ''\<newline>'' (map (join '','')
              (headers1 exampleState_part000 # file1Data exampleState_part000)) @
            promptBetween_part000 @
            join ''\<newline>'' (map (join '','')
              (headers2 exampleState_part000 # file2Data exampleState_part000))\<rparr>]"
    by simp
  have a': "snd (processWithAI everyClient noText exampleState) =
     [\<lparr>provider = Gemini, model = ''gemini-1.5-pro'', key = ''secret'',
       content = promptIntro @ ''a, b\<newline>1, 2'' @ promptBetween @ ''c, d\<newline>3, 4''\<rparr>]"
    using a unfolding e f .
  have c': "snd (processWithOpenAI everyClient noText exampleState_part000) =
     [\<lparr>provider = Openai, model = ''o3-mini'', key = ''secret'',
       content = promptIntro_part000 @ ''a,b\<newline>1,2'' @ promptBetween_part000 @ ''c,d\<newline>3,4''\<rparr>]"
    using c unfolding e0 by simp
  have n: "file1Data (exampleState\<lparr>file1Data := []\<rparr>) = []"
    "file2Data (exampleState_part000\<lparr>file2Data := []\<rparr>) = []"
    by simp_all
  from prompt_carries_both_tables [of _ _ "exampleState\<lparr>file1Data := []\<rparr>" everyClient noText
      "exampleState_part000\<lparr>file2Data := []\<rparr>"] n
  have z: "snd (processWithAI everyClient noText (exampleState\<lparr>file1Data := []\<rparr>)) = []"
    "snd (processWithOpenAI everyClient noText (exampleState_part000\<lparr>file2Data := []\<rparr>)) = []"
    by simp_all
  from h h0 b b0 f a' c' n z r x show ?thesis by blast
qed

text \<open>
  C8, as the claim states it, fails. For a pair of normalized tables of which one has
  headers and no data row, the process action sends no request although a credential is
  set. And the prompt of the request of \<open>processWithOpenAI\<close> in
  \<open>src/unnamed/part_000\<close> holds the first table as \<open>a,b\<close> and \<open>1,2\<close>, and nowhere the
  serialization with \<open>", "\<close>.
\<close>

theorem prompt_carries_both_tables_counterexample:
  "snd (processWithAI everyClient noText (exampleState\<lparr>file1Data := []\<rparr>)) = [] \<and>
   snd (processWithOpenAI everyClient noText exampleState_part000) =
     [\<lparr>provider = Openai, model = ''o3-mini'', key = ''secret'',
       content = promptIntro_part000 @ ''a,b\<newline>1,2'' @ promptBetween_part000 @ ''c,d\<newline>3,4''\<rparr>] \<and>
   formatData (headers1 exampleState_part000) (file1Data exampleState_part000) =
     ''a, b\<newline>1, 2'' \<and>
   \<not> sublist ''a, b\<newline>1, 2''
     (promptIntro_part000 @ ''a,b\<newline>1,2'' @ promptBetween_part000 @ ''c,d\<newline>3,4'')"
  by code_simp

text \<open>
  C9. Every row that \<open>processCSV\<close> returns has a cell that is not the empty string: a
  kept row has such a cell, and it lies at or after column \<open>k\<close>.
\<close>

theorem processCSV_rows_not_blank:
  "row \<in> set (snd (processCSV csvText)) \<Longrightarrow> \<exists>cell\<in>set row. cell \<noteq> []"
proof -
  assume "row \<in> set (snd (processCSV csvText))"
  then obtain r where r: "r \<in> set (tl (keptLines csvText))"
    and row: "row = drop (leadingBlankColumns csvText) r"
    by (auto simp: processCSV_eq)
  from r have "r \<in> set (keptLines csvText)"
    by (meson list.set_sel(2) keptLines_not_Nil)
  then have "\<forall>i<leadingBlankColumns csvText. i < length r \<and> r ! i = []"
    using before_leadingBlankColumns by blast
  with someCell_tl_keptLines [OF r] have "someCell row"
    unfolding row by (rule someCell_drop)
  then show ?thesis by (simp add: someCell_def list_ex_iff)
qed

theorem processCSV_rows_not_blank_witness:
  "[''1'', ''2''] \<in> set (snd (processCSV '',,a,b\<newline>,,1,2'')) \<and>
   (\<exists>cell\<in>set [''1'', ''2'']. cell \<noteq> [])"
proof -
  have h: "[''1'', ''2''] \<in> set (snd (processCSV '',,a,b\<newline>,,1,2''))"
    by code_simp
  from processCSV_rows_not_blank [OF h] h show ?thesis by simp
qed

text \<open>
  C10. The CSV normalizer of \<open>src/App.tsx\<close> and the one of \<open>src/unnamed/part_000\<close> are
  extensionally equal: on every input string both return the same headers and the same
  rows.
\<close>

theorem processCSV_part000_eq: "processCSV_part000 csvText = processCSV csvText"
proof -
  have cell: "(\<lambda>cell. stripQuotes (trim cell)) = cleanCell"
    by (rule ext) (simp add: cleanCell_def)
  have some: "(\<lambda>line. list_ex (\<lambda>cell. cell \<noteq> []) line) = someCell"
    by (rule ext) (simp add: someCell_def)
  have cols: "removeLeadingBlankColumns_part000 = removeLeadingBlankColumns"
    by (rule ext)
      (simp add: removeLeadingBlankColumns_part000_def removeLeadingBlankColumns_def
        firstNonBlankColIndex_part000_eq)
  show ?thesis
    unfolding processCSV_part000_def processCSV_def parseLines_def cell some cols ..
qed

end
